theory Spec2Isabelle
  imports Main
begin

text \<open>
  A model of the converter \<open>AndroMoney2PTA.py\<close>: the reader \<open>AndroMoneyReader\<close> that turns the
  rows of an export into transactions, the writer \<open>LedgerWriter\<close> and the loop
  \<open>generateLedger\<close> that writes them as ledger text. The rows come from a finite list; the
  CSV layer, the files and the command line are not part of the model. The \<open>assert\<close>
  statements are executed. Exceptions are values: a function that can raise returns the
  exception or its result.
\<close>

section \<open>Data\<close>

text \<open>
  A \<open>datetime\<close> with its seconds at zero: every one in the program comes from a format
  without seconds.
\<close>

record datetime =
  year :: int
  month :: int
  day :: int
  hour :: int
  minute :: int

text \<open>
  The dictionary \<open>result\<close> that \<open>AndroMoneyReader.__next__\<close> builds from a row, one field
  for each key (\<open>id_no\<close> is the key \<open>'id'\<close>). The dictionary it returns has lost the key
  \<open>'sub_category'\<close>: that is a \<open>transaction\<close>, and \<open>result\<close> extends it by the one field.
\<close>

record transaction =
  id_no :: int
  currency :: string
  amount :: string
  category :: string
  from_account :: string
  to_account :: string
  remark :: string
  periodic :: string
  project :: string
  payee :: string
  uid :: string
  time :: datetime
  status :: "int option"

record result = transaction +
  sub_category :: string

text \<open>
  The exceptions of the program. The message of an \<open>AssertionError\<close> is the dictionary
  \<open>result\<close> as the f-string prints it, followed by a text: the error carries the dictionary
  itself and that text.
\<close>

datatype error =
    StopIteration
  | IndexError
  | ValueError
  | KeyError
  | AttributeError
  | NotImplementedError
  | RecursionError
  | AssertionError result string

section \<open>Python strings and the library conversions used by the converter\<close>

text \<open>
  A Python \<open>str\<close> is modelled as a \<open>string\<close> whose characters are the code points below 256.
  A CSV row is the list of its fields.
\<close>

type_synonym row = "string list"

definition code :: "char \<Rightarrow> nat" where
  "code c = of_char c"

definition isdigit :: "char \<Rightarrow> bool" where
  "isdigit c = (48 \<le> code c \<and> code c \<le> 57)"

definition between :: "char \<Rightarrow> char \<Rightarrow> char \<Rightarrow> bool" where
  "between lo hi c = (code lo \<le> code c \<and> code c \<le> code hi)"

definition lit :: "char \<Rightarrow> char \<Rightarrow> bool" where
  "lit a c = (c = a)"

definition digit_val :: "char \<Rightarrow> int" where
  "digit_val c = int (code c) - 48"

definition digit_char :: "int \<Rightarrow> char" where
  "digit_char n = char_of (48 + n)"

text \<open>\<open>str.isspace\<close>, the separators of \<open>str.split()\<close> without argument.\<close>

definition isspace :: "char \<Rightarrow> bool" where
  "isspace c = (code c \<in> set [9, 10, 11, 12, 13, 28, 29, 30, 31, 32, 133, 160])"

text \<open>The white space that \<open>int()\<close> and \<open>float()\<close> strip from both ends of their argument.\<close>

definition isspace_num :: "char \<Rightarrow> bool" where
  "isspace_num c = (code c \<in> set [9, 10, 11, 12, 13, 32, 133, 160])"

definition strip_num :: "string \<Rightarrow> string" where
  "strip_num s = rev (dropWhile isspace_num (rev (dropWhile isspace_num s)))"

text \<open>\<open>s.split()\<close>: the maximal runs of characters that are not white space.\<close>

fun split_acc :: "string \<Rightarrow> string \<Rightarrow> string list" where
  "split_acc w [] = (if w = [] then [] else [w])"
| "split_acc w (c # cs) =
     (if isspace c then (if w = [] then split_acc [] cs else w # split_acc [] cs)
      else split_acc (w @ [c]) cs)"

definition split :: "string \<Rightarrow> string list" where
  "split s = split_acc [] s"

text \<open>\<open>s.split(sep)\<close> for a separator of one character.\<close>

fun split_on_acc :: "char \<Rightarrow> string \<Rightarrow> string \<Rightarrow> string list" where
  "split_on_acc sep w [] = [w]"
| "split_on_acc sep w (c # cs) =
     (if c = sep then w # split_on_acc sep [] cs else split_on_acc sep (w @ [c]) cs)"

definition split_on :: "char \<Rightarrow> string \<Rightarrow> string list" where
  "split_on sep s = split_on_acc sep [] s"

fun join :: "string \<Rightarrow> string list \<Rightarrow> string" where
  "join sep [] = []"
| "join sep [x] = x"
| "join sep (x # y # ys) = x @ sep @ join sep (y # ys)"

text \<open>\<open>s.zfill(width)\<close>: zeros on the left, after a leading sign.\<close>

definition zfill :: "nat \<Rightarrow> string \<Rightarrow> string" where
  "zfill width s =
     (if width \<le> length s then s
      else (case s of
              [] \<Rightarrow> replicate width (CHR ''0'')
            | c # cs \<Rightarrow>
                if c = CHR ''+'' \<or> c = CHR ''-''
                then c # replicate (width - length s) (CHR ''0'') @ cs
                else replicate (width - length s) (CHR ''0'') @ s))"

fun digits_val :: "int \<Rightarrow> string \<Rightarrow> int" where
  "digits_val acc [] = acc"
| "digits_val acc (c # cs) = digits_val (10 * acc + digit_val c) cs"

function str_nat :: "int \<Rightarrow> string" where
  "str_nat n = (if n < 10 then [digit_char n] else str_nat (n div 10) @ [digit_char (n mod 10)])"
  by pat_completeness auto
termination
  by (relation "measure nat") auto

declare str_nat.simps [simp del]

text \<open>\<open>str(i)\<close> of an integer.\<close>

definition str_int :: "int \<Rightarrow> string" where
  "str_int i = (if i < 0 then CHR ''-'' # str_nat (- i) else str_nat i)"

definition pad :: "nat \<Rightarrow> string \<Rightarrow> string" where
  "pad w s = replicate (w - length s) (CHR ''0'') @ s"

subsection \<open>\<open>int(s)\<close>\<close>

text \<open>
  Decimal digits, single underscores allowed between two digits only. The conversion
  accepts leading zeros, one sign, and white space around the number. The interpreter's
  limit on the number of digits of a converted integer is not modelled.
\<close>

fun int_digits :: "string \<Rightarrow> string option" where
  "int_digits [] = None"
| "int_digits [c] = (if isdigit c then Some [c] else None)"
| "int_digits (c # u # cs) =
     (if \<not> isdigit c then None
      else if u = CHR ''_'' then map_option ((#) c) (int_digits cs)
      else map_option ((#) c) (int_digits (u # cs)))"

definition split_sign :: "string \<Rightarrow> bool \<times> string" where
  "split_sign t =
     (case t of
        [] \<Rightarrow> (False, t)
      | c # cs \<Rightarrow> if c = CHR ''-'' then (True, cs) else if c = CHR ''+'' then (False, cs) else (False, t))"

definition int_of_str :: "string \<Rightarrow> error + int" where
  "int_of_str s =
     (case split_sign (strip_num s) of
        (neg, body) \<Rightarrow>
          (case int_digits body of
             None \<Rightarrow> Inl ValueError
           | Some ds \<Rightarrow> Inr (if neg then - digits_val 0 ds else digits_val 0 ds)))"

subsection \<open>\<open>float(s) <= 1e-6\<close>\<close>

text \<open>
  \<open>float(s)\<close> is the double nearest to the decimal number that \<open>s\<close> denotes (ties to the
  even significand), an infinity or a NaN. The model keeps the decimal number itself:
  \<open>Decimal neg m e\<close> stands for \<open>\<plusminus> m * 10 ^ e\<close>.
\<close>

datatype pyfloat = NaN | Infinite bool | Decimal bool int int

text \<open>Underscores are removed first; each must stand between two digits.\<close>

fun del_underscores :: "char \<Rightarrow> string \<Rightarrow> string option" where
  "del_underscores prev [] = (if prev = CHR ''_'' then None else Some [])"
| "del_underscores prev (c # cs) =
     (if c = CHR ''_'' then (if isdigit prev then del_underscores c cs else None)
      else if prev = CHR ''_'' \<and> \<not> isdigit c then None
      else map_option ((#) c) (del_underscores c cs))"

definition lower :: "string \<Rightarrow> string" where
  "lower s = map (\<lambda>c. if 65 \<le> code c \<and> code c \<le> 90 then char_of (code c + 32) else c) s"

text \<open>The exponent part: empty, or \<open>e\<close> or \<open>E\<close>, an optional sign and at least one digit.\<close>

definition exponent :: "string \<Rightarrow> int option" where
  "exponent r =
     (case r of
        [] \<Rightarrow> Some 0
      | c # cs \<Rightarrow>
          if c = CHR ''e'' \<or> c = CHR ''E'' then
            (case split_sign cs of
               (neg, ds) \<Rightarrow>
                 if ds = [] \<or> \<not> list_all isdigit ds then None
                 else Some (if neg then - digits_val 0 ds else digits_val 0 ds))
          else None)"

definition decimal_of_str :: "bool \<Rightarrow> string \<Rightarrow> error + pyfloat" where
  "decimal_of_str neg body =
     (let i = takeWhile isdigit body;
          r1 = dropWhile isdigit body;
          f = (case r1 of [] \<Rightarrow> [] | c # cs \<Rightarrow> if c = CHR ''.'' then takeWhile isdigit cs else []);
          r2 = (case r1 of [] \<Rightarrow> [] | c # cs \<Rightarrow> if c = CHR ''.'' then dropWhile isdigit cs else r1)
      in if i = [] \<and> f = [] then Inl ValueError
         else (case exponent r2 of
                 None \<Rightarrow> Inl ValueError
               | Some e \<Rightarrow> Inr (Decimal neg (digits_val 0 (i @ f)) (e - int (length f)))))"

definition float_of_str :: "string \<Rightarrow> error + pyfloat" where
  "float_of_str s =
     (let t = strip_num s in
      case (if CHR ''_'' \<in> set t then del_underscores (CHR 0x00) t else Some t) of
        None \<Rightarrow> Inl ValueError
      | Some u \<Rightarrow>
          (case split_sign u of
             (neg, body) \<Rightarrow>
               if lower body = ''inf'' \<or> lower body = ''infinity'' then Inr (Infinite neg)
               else if lower body = ''nan'' then Inr NaN
               else decimal_of_str neg body))"

text \<open>
  The double \<open>1e-6\<close> is \<open>4722366482869645 / 2 ^ 72\<close>, and its significand is odd. Rounding
  to nearest is monotone and sends the midpoint between this double and the next one,
  \<open>9444732965739291 / 2 ^ 73\<close>, upwards to the even neighbour. So the double nearest to a
  decimal number is at most \<open>1e-6\<close> exactly when the number is below that midpoint; a
  number too small for a double becomes zero, one too large an infinity. A NaN compares
  false.
\<close>

definition le_1e6 :: "pyfloat \<Rightarrow> bool" where
  "le_1e6 x =
     (case x of
        NaN \<Rightarrow> False
      | Infinite neg \<Rightarrow> neg
      | Decimal neg m e \<Rightarrow>
          if neg then True
          else if 0 \<le> e then m * 10 ^ nat e * 2 ^ 73 < 9444732965739291
          else m * 2 ^ 73 < 9444732965739291 * 10 ^ nat (- e))"

subsection \<open>\<open>datetime\<close>\<close>

definition is_leap :: "int \<Rightarrow> bool" where
  "is_leap y = (y mod 4 = 0 \<and> (y mod 100 \<noteq> 0 \<or> y mod 400 = 0))"

definition days_in_month :: "int \<Rightarrow> int \<Rightarrow> int" where
  "days_in_month y m =
     (if m = 2 then (if is_leap y then 29 else 28)
      else if m \<in> set [4, 6, 9, 11] then 30 else 31)"

text \<open>
  \<open>strptime(s, '%Y%m%d%H%M')\<close> matches \<open>s\<close> against the regular expression of the format,
  one group for each directive, the alternatives of a group tried in the order written:
  \<^verbatim>\<open>%Y  \d\d\d\d\<close>,
  \<^verbatim>\<open>%m  1[0-2]|0[1-9]|[1-9]\<close>,
  \<^verbatim>\<open>%d  3[0-1]|[1-2]\d|0[1-9]|[1-9]| [1-9]\<close>,
  \<^verbatim>\<open>%H  2[0-3]|[0-1]\d|\d\<close>,
  \<^verbatim>\<open>%M  [0-5]\d|\d\<close>.
  The first match found by backtracking is taken; text left behind it is an error, and so
  is a date that does not exist.
\<close>

fun match_seq :: "(char \<Rightarrow> bool) list \<Rightarrow> string \<Rightarrow> (string \<times> string) option" where
  "match_seq [] s = Some ([], s)"
| "match_seq (p # ps) [] = None"
| "match_seq (p # ps) (c # cs) =
     (if p c then map_option (\<lambda>(m, r). (c # m, r)) (match_seq ps cs) else None)"

definition match_group :: "(char \<Rightarrow> bool) list list \<Rightarrow> string \<Rightarrow> (int \<times> string) list" where
  "match_group alts s =
     List.map_filter
       (\<lambda>ps. map_option (\<lambda>(m, r). (digits_val 0 (filter isdigit m), r)) (match_seq ps s)) alts"

definition re_Y :: "(char \<Rightarrow> bool) list list" where
  "re_Y = [[isdigit, isdigit, isdigit, isdigit]]"

definition re_m :: "(char \<Rightarrow> bool) list list" where
  "re_m = [[lit (CHR ''1''), between (CHR ''0'') (CHR ''2'')],
           [lit (CHR ''0''), between (CHR ''1'') (CHR ''9'')],
           [between (CHR ''1'') (CHR ''9'')]]"

definition re_d :: "(char \<Rightarrow> bool) list list" where
  "re_d = [[lit (CHR ''3''), between (CHR ''0'') (CHR ''1'')],
           [between (CHR ''1'') (CHR ''2''), isdigit],
           [lit (CHR ''0''), between (CHR ''1'') (CHR ''9'')],
           [between (CHR ''1'') (CHR ''9'')],
           [lit (CHR '' ''), between (CHR ''1'') (CHR ''9'')]]"

definition re_H :: "(char \<Rightarrow> bool) list list" where
  "re_H = [[lit (CHR ''2''), between (CHR ''0'') (CHR ''3'')],
           [between (CHR ''0'') (CHR ''1''), isdigit],
           [isdigit]]"

definition re_M :: "(char \<Rightarrow> bool) list list" where
  "re_M = [[between (CHR ''0'') (CHR ''5''), isdigit], [isdigit]]"

definition strptime_match :: "string \<Rightarrow> (datetime \<times> string) list" where
  "strptime_match s =
     [(\<lparr>year = Y, month = m, day = d, hour = H, minute = M\<rparr>, r5).
        (Y, r1) \<leftarrow> match_group re_Y s,
        (m, r2) \<leftarrow> match_group re_m r1,
        (d, r3) \<leftarrow> match_group re_d r2,
        (H, r4) \<leftarrow> match_group re_H r3,
        (M, r5) \<leftarrow> match_group re_M r4]"

definition strptime :: "string \<Rightarrow> error + datetime" where
  "strptime s =
     (case strptime_match s of
        [] \<Rightarrow> Inl ValueError
      | (t, rest) # _ \<Rightarrow>
          if rest \<noteq> [] then Inl ValueError
          else if year t < 1 \<or> days_in_month (year t) (month t) < day t then Inl ValueError
          else Inr t)"

text \<open>
  \<open>strftime\<close> with the formats \<open>'%Y-%m-%d'\<close> and \<open>'%H%M'\<close>. The year is written with four
  digits, as the library documents it (some C libraries do not pad a year below 1000).
\<close>

definition strftime_Ymd :: "datetime \<Rightarrow> string" where
  "strftime_Ymd t =
     pad 4 (str_nat (year t)) @ ''-'' @ pad 2 (str_nat (month t)) @ ''-'' @ pad 2 (str_nat (day t))"

definition strftime_HM :: "datetime \<Rightarrow> string" where
  "strftime_HM t = pad 2 (str_nat (hour t)) @ pad 2 (str_nat (minute t))"

section \<open>\<open>AndroMoneyReader\<close>\<close>

text \<open>
  The entries of the dictionary are evaluated in the order written, so the first one
  that fails decides the exception: \<open>int(row[0])\<close>; the fields 1 to 4 and 6 to 12, an
  \<open>IndexError\<close> when the row has fewer than 13 fields; \<open>row[5]\<close> and \<open>row[13]\<close> and the
  timestamp parsed from them; \<open>row[14]\<close> and the status, absent when the field is empty.
\<close>

definition parse_row :: "row \<Rightarrow> error + result" where
  "parse_row row =
     (if length row < 1 then Inl IndexError
      else case int_of_str (row ! 0) of
        Inl e \<Rightarrow> Inl e
      | Inr i \<Rightarrow>
          if length row < 13 then Inl IndexError
          else if length row < 14 then Inl IndexError
          else case strptime (row ! 5 @ zfill 4 (row ! 13)) of
            Inl e \<Rightarrow> Inl e
          | Inr t \<Rightarrow>
              if length row < 15 then Inl IndexError
              else case (if row ! 14 \<noteq> [] then map_sum (\<lambda>e. e) Some (int_of_str (row ! 14))
                         else Inr None) of
                Inl e \<Rightarrow> Inl e
              | Inr st \<Rightarrow>
                  Inr \<lparr>id_no = i, currency = row ! 1, amount = row ! 2, category = row ! 3,
                       from_account = row ! 6, to_account = row ! 7, remark = row ! 8,
                       periodic = row ! 9, project = row ! 10, payee = row ! 11,
                       uid = row ! 12, time = t, status = st, sub_category = row ! 4\<rparr>)"

text \<open>
  What \<open>__next__\<close> does with the row it has read: it raises, it calls itself again
  (a skipped opening balance), or it returns a transaction, with the value that
  \<open>self.curr_date\<close> has then.
\<close>

datatype step = Again | Return transaction datetime

definition next_row :: "datetime \<Rightarrow> row \<Rightarrow> error + step" where
  "next_row cur row =
     (case parse_row row of
        Inl e \<Rightarrow> Inl e
      | Inr result \<Rightarrow>
          if status result \<notin> set [None, Some 0, Some 1]
          then Inl (AssertionError result
                      ('' has status '' @ (case status result of None \<Rightarrow> ''None'' | Some i \<Rightarrow> str_int i)))
          else if category result = ''SYSTEM'' then
            (if sub_category result \<noteq> ''INIT_AMOUNT''
             then Inl (AssertionError result '' has SYSTEM but not INIT_AMOUNT'')
             else case float_of_str (amount result) of
               Inl e \<Rightarrow> Inl e
             | Inr x \<Rightarrow>
                 if le_1e6 x then Inr Again
                 else Inr (Return
                        (transaction.truncate
                           (result\<lparr>payee := sub_category result, time := cur,
                                   from_account := ''Opening Balances''\<rparr>))
                        cur))
          else Inr (Return
                 (transaction.truncate
                    (if category result = ''Transfer'' then result\<lparr>payee := sub_category result\<rparr>
                     else if category result = ''Income''
                     then result\<lparr>from_account := sub_category result\<rparr>
                     else result\<lparr>to_account := category result @ '':'' @ sub_category result,
                                 category := ''Expense''\<rparr>))
                 (time result)))"

text \<open>
  The reader is the list of the rows not yet read. \<open>next(self.reader)\<close> takes the first
  one, or raises \<open>StopIteration\<close> at the end of the list.
\<close>

record AndroMoneyReader =
  reader :: "row list"
  curr_date :: datetime

text \<open>
  \<open>__next__\<close> skips a row by \<open>return self.__next__()\<close>: one more frame of the interpreter
  for each row skipped in a run. The first argument is the number of nested calls of
  \<open>__next__\<close> that the interpreter's recursion limit still allows (the limit is 1000 frames
  unless it is changed, and the frames below the first call count against it). When none
  is left the call raises \<open>RecursionError\<close>; the rows read by the calls around it stay
  read.
\<close>

fun AndroMoneyReader_next ::
  "nat \<Rightarrow> AndroMoneyReader \<Rightarrow> (error + transaction) \<times> AndroMoneyReader" where
  "AndroMoneyReader_next 0 self = (Inl RecursionError, self)"
| "AndroMoneyReader_next (Suc depth) self =
     (case reader self of
        [] \<Rightarrow> (Inl StopIteration, self)
      | row # rest \<Rightarrow>
          (case next_row (curr_date self) row of
             Inl e \<Rightarrow> (Inl e, self\<lparr>reader := rest\<rparr>)
           | Inr Again \<Rightarrow> AndroMoneyReader_next depth (self\<lparr>reader := rest\<rparr>)
           | Inr (Return t cur) \<Rightarrow> (Inr t, self\<lparr>reader := rest, curr_date := cur\<rparr>)))"

declare AndroMoneyReader_next.simps [simp del]

section \<open>\<open>LedgerWriter\<close>\<close>

text \<open>
  The writer's file is the text written to it so far. A method returns the exception it
  raised, if any, and the writer with what was written before.
\<close>

record LedgerWriter =
  writer :: string
  indent :: nat

text \<open>An entry of \<open>changed_account\<close>; the keys \<open>'amount'\<close> and \<open>'effective_dates'\<close> may be absent.\<close>

record leg =
  account :: string
  leg_amount :: "(string \<times> string) option"
  effective_dates :: "datetime list option"

definition emit :: "LedgerWriter \<Rightarrow> string \<Rightarrow> LedgerWriter" where
  "emit self s = self\<lparr>writer := writer self @ s\<rparr>"

definition write_tag :: "LedgerWriter \<Rightarrow> string \<Rightarrow> string \<Rightarrow> LedgerWriter" where
  "write_tag self tag val =
     emit self (replicate (indent self) (CHR '' '') @ ''; :'' @ join ''_'' (split tag) @ '': ''
                @ join '' '' (split_on (CHR 0x0A) val) @ [CHR 0x0A])"

definition write_single_account ::
  "LedgerWriter \<Rightarrow> string \<Rightarrow> (string \<times> string) option \<Rightarrow> datetime option
     \<Rightarrow> error option \<times> LedgerWriter" where
  "write_single_account self acc amt effective_date =
     (let s1 = emit self (replicate (indent self) (CHR '' '') @ join '' '' (split acc));
          s2 = (case amt of None \<Rightarrow> s1 | Some (n, c) \<Rightarrow> emit s1 (''  '' @ n @ '' '' @ c))
      in case effective_date of
           Some d \<Rightarrow> (Some NotImplementedError, s2)
         | None \<Rightarrow> (None, emit s2 [CHR 0x0A]))"

text \<open>The loop of \<open>write\<close> over \<open>changed_account\<close>.\<close>

fun write_accounts :: "LedgerWriter \<Rightarrow> leg list \<Rightarrow> error option \<times> LedgerWriter" where
  "write_accounts self [] = (None, self)"
| "write_accounts self (a # as) =
     (case effective_dates a of
        Some ds \<Rightarrow> (Some NotImplementedError, self)
      | None \<Rightarrow>
          (case write_single_account self (account a) (leg_amount a) None of
             (Some e, s) \<Rightarrow> (Some e, s)
           | (None, s) \<Rightarrow> write_accounts s as))"

text \<open>The loop over \<open>tags.items()\<close>, the dictionary as the list of its items in order.\<close>

fun write_tags :: "LedgerWriter \<Rightarrow> (string \<times> string) list \<Rightarrow> LedgerWriter" where
  "write_tags self [] = self"
| "write_tags self ((tag, val) # tags) = write_tags (write_tag self tag val) tags"

text \<open>
  \<open>LedgerWriter.write\<close>. With an effective date it reads \<open>self.file\<close>, an attribute that no
  \<open>LedgerWriter\<close> has: an \<open>AttributeError\<close>, after the date has been written. The
  argument \<open>remark\<close> is not used.
\<close>

definition LedgerWriter_write ::
  "LedgerWriter \<Rightarrow> datetime \<Rightarrow> string \<Rightarrow> datetime option \<Rightarrow> leg list \<Rightarrow> string
     \<Rightarrow> (string \<times> string) list \<Rightarrow> error option \<times> LedgerWriter" where
  "LedgerWriter_write self transaction_date payee_arg effective_date changed_account remark_arg tags =
     (let s1 = emit self (strftime_Ymd transaction_date) in
      case effective_date of
        Some d \<Rightarrow> (Some AttributeError, s1)
      | None \<Rightarrow>
          (case write_accounts (emit s1 ('' * '' @ payee_arg @ [CHR 0x0A])) changed_account of
             (Some e, s3) \<Rightarrow> (Some e, s3)
           | (None, s3) \<Rightarrow> (None, emit (write_tags s3 tags) [CHR 0x0A])))"

section \<open>\<open>generateLedger\<close>\<close>

definition FROM_ACCOUNT_TYPE :: "(string \<times> string) list" where
  "FROM_ACCOUNT_TYPE =
     [(''SYSTEM'', ''Equity''), (''Transfer'', ''Asset''), (''Income'', ''Income''),
      (''Expense'', ''Asset'')]"

definition TO_ACCOUNT_TYPE :: "(string \<times> string) list" where
  "TO_ACCOUNT_TYPE =
     [(''SYSTEM'', ''Asset''), (''Transfer'', ''Asset''), (''Income'', ''Asset''),
      (''Expense'', ''Expenses'')]"

definition getitem :: "(string \<times> string) list \<Rightarrow> string \<Rightarrow> error + string" where
  "getitem d k = (case map_of d k of None \<Rightarrow> Inl KeyError | Some v \<Rightarrow> Inr v)"

definition changed_account_of :: "transaction \<Rightarrow> error + leg list" where
  "changed_account_of row =
     (case getitem TO_ACCOUNT_TYPE (category row) of
        Inl e \<Rightarrow> Inl e
      | Inr to_type \<Rightarrow>
          (case getitem FROM_ACCOUNT_TYPE (category row) of
             Inl e \<Rightarrow> Inl e
           | Inr from_type \<Rightarrow>
               Inr [\<lparr>account = to_type @ '':'' @ to_account row,
                     leg_amount = Some (amount row, currency row), effective_dates = None\<rparr>,
                    \<lparr>account = from_type @ '':'' @ from_account row,
                     leg_amount = None, effective_dates = None\<rparr>]))"

definition tags_of :: "transaction \<Rightarrow> (string \<times> string) list" where
  "tags_of row =
     [(''AndroMoney_uid'', uid row), (''AndroMoney_time'', strftime_HM (time row))]
     @ (case status row of None \<Rightarrow> [] | Some i \<Rightarrow> [(''AndroMoney_status'', str_int i)])
     @ (if project row \<noteq> [] then [(''AndroMoney_project'', project row)] else [])
     @ (if remark row \<noteq> [] then [(''AndroMoney_remark'', remark row)] else [])"

text \<open>The body of the loop of \<open>generateLedger\<close>, for one transaction.\<close>

definition write_row :: "LedgerWriter \<Rightarrow> transaction \<Rightarrow> error option \<times> LedgerWriter" where
  "write_row w row =
     (case changed_account_of row of
        Inl e \<Rightarrow> (Some e, w)
      | Inr legs \<Rightarrow> LedgerWriter_write w (time row) (payee row) None legs [] (tags_of row))"

text \<open>
  \<open>for row in reader\<close>: the loop ends at \<open>StopIteration\<close>; any other exception leaves
  \<open>generateLedger\<close>, with the file as written until then. Every call of \<open>__next__\<close> is made
  from the same frame, so each has the same number of nested calls left, the first
  argument. Each call that returns a transaction has taken at least one row from the
  reader, so the loop ends.
\<close>

lemma next_shrinks:
  "AndroMoneyReader_next depth rd = (Inr t, rd') \<Longrightarrow> length (reader rd') < length (reader rd)"
proof (induction depth arbitrary: rd)
  case 0
  then show ?case
    by (simp add: AndroMoneyReader_next.simps)
next
  case (Suc depth)
  show ?case
  proof (cases "reader rd")
    case Nil
    with Suc.prems show ?thesis
      by (simp add: AndroMoneyReader_next.simps)
  next
    case (Cons row rest)
    show ?thesis
    proof (cases "next_row (curr_date rd) row")
      case (Inl e)
      with Cons Suc.prems show ?thesis
        by (simp add: AndroMoneyReader_next.simps)
    next
      case (Inr b)
      show ?thesis
      proof (cases b)
        case Again
        with Cons Inr Suc.prems
        have "AndroMoneyReader_next depth (rd\<lparr>reader := rest\<rparr>) = (Inr t, rd')"
          by (simp add: AndroMoneyReader_next.simps)
        from Suc.IH [OF this] Cons show ?thesis
          by simp
      next
        case (Return t' cur)
        with Cons Inr Suc.prems show ?thesis
          by (auto simp add: AndroMoneyReader_next.simps)
      qed
    qed
  qed
qed

function generateLedger_loop ::
  "nat \<Rightarrow> AndroMoneyReader \<Rightarrow> LedgerWriter \<Rightarrow> error option \<times> LedgerWriter" where
  "generateLedger_loop depth rd w =
     (case AndroMoneyReader_next depth rd of
        (Inl e, rd') \<Rightarrow> (if e = StopIteration then (None, w) else (Some e, w))
      | (Inr row, rd') \<Rightarrow>
          (case write_row w row of
             (Some e, w') \<Rightarrow> (Some e, w')
           | (None, w') \<Rightarrow> generateLedger_loop depth rd' w'))"
  by pat_completeness auto
termination
  by (relation "measure (\<lambda>(depth, rd, w). length (reader rd))") (auto dest: next_shrinks [OF sym])

declare generateLedger_loop.simps [simp del]

text \<open>The text of the output file and the exception that ended the run, if any.\<close>

definition generateLedger :: "nat \<Rightarrow> AndroMoneyReader \<Rightarrow> error option \<times> string" where
  "generateLedger depth rd =
     (case generateLedger_loop depth rd \<lparr>writer = [], indent = 4\<rparr> of (e, w) \<Rightarrow> (e, writer w))"

section \<open>Properties\<close>

subsection \<open>The equations of \<open>__next__\<close> and the fields of a parsed row\<close>

lemma next_zero:
  "AndroMoneyReader_next 0 self = (Inl RecursionError, self)"
  by (simp add: AndroMoneyReader_next.simps)

lemma next_Nil:
  "AndroMoneyReader_next (Suc depth) \<lparr>reader = [], curr_date = cur\<rparr>
     = (Inl StopIteration, \<lparr>reader = [], curr_date = cur\<rparr>)"
  by (simp add: AndroMoneyReader_next.simps)

lemma next_Cons:
  "AndroMoneyReader_next (Suc depth) \<lparr>reader = row # rest, curr_date = cur\<rparr>
     = (case next_row cur row of
          Inl e \<Rightarrow> (Inl e, \<lparr>reader = rest, curr_date = cur\<rparr>)
        | Inr Again \<Rightarrow> AndroMoneyReader_next depth \<lparr>reader = rest, curr_date = cur\<rparr>
        | Inr (Return t c) \<Rightarrow> (Inr t, \<lparr>reader = rest, curr_date = c\<rparr>))"
  by (simp add: AndroMoneyReader_next.simps split: sum.splits step.splits)

text \<open>A run of skipped rows takes one nested call for each row.\<close>

lemma next_skip_run:
  assumes "next_row cur row = Inr Again"
  shows "AndroMoneyReader_next (n + depth) \<lparr>reader = replicate n row @ rest, curr_date = cur\<rparr>
     = AndroMoneyReader_next depth \<lparr>reader = rest, curr_date = cur\<rparr>"
  by (induction n) (simp_all add: next_Cons assms)

lemma parse_row_fields:
  assumes "parse_row row = Inr r"
  shows "15 \<le> length row" and "category r = row ! 3" and "sub_category r = row ! 4"
    and "amount r = row ! 2" and "payee r = row ! 11"
  using assms by (auto simp add: parse_row_def split: if_splits sum.splits)

lemma next_row_parsed:
  assumes "next_row cur row = Inr s"
  obtains r where "parse_row row = Inr r"
  using assms by (auto simp add: next_row_def split: sum.splits)

lemma next_row_of_parsed:
  assumes "parse_row row = Inr r"
  shows "next_row cur row =
     (if status r \<notin> set [None, Some 0, Some 1]
      then Inl (AssertionError r
                  ('' has status '' @ (case status r of None \<Rightarrow> ''None'' | Some i \<Rightarrow> str_int i)))
      else if category r = ''SYSTEM'' then
        (if sub_category r \<noteq> ''INIT_AMOUNT''
         then Inl (AssertionError r '' has SYSTEM but not INIT_AMOUNT'')
         else case float_of_str (amount r) of
           Inl e \<Rightarrow> Inl e
         | Inr x \<Rightarrow>
             if le_1e6 x then Inr Again
             else Inr (Return
                    (transaction.truncate
                       (r\<lparr>payee := sub_category r, time := cur,
                          from_account := ''Opening Balances''\<rparr>))
                    cur))
      else Inr (Return
             (transaction.truncate
                (if category r = ''Transfer'' then r\<lparr>payee := sub_category r\<rparr>
                 else if category r = ''Income'' then r\<lparr>from_account := sub_category r\<rparr>
                 else r\<lparr>to_account := category r @ '':'' @ sub_category r,
                        category := ''Expense''\<rparr>))
             (time r)))"
  using assms by (simp add: next_row_def)

text \<open>The conversions raise nothing but \<open>ValueError\<close>, a row that cannot be read that or \<open>IndexError\<close>.\<close>

lemma int_of_str_error: "int_of_str s = Inl e \<Longrightarrow> e = ValueError"
  by (auto simp add: int_of_str_def split: prod.splits option.splits)

lemma strptime_error: "strptime s = Inl e \<Longrightarrow> e = ValueError"
  by (auto simp add: strptime_def split: list.splits prod.splits if_splits)

lemma float_of_str_error: "float_of_str s = Inl e \<Longrightarrow> e = ValueError"
  by (auto simp add: float_of_str_def decimal_of_str_def Let_def
      split: option.splits prod.splits if_splits)

lemma parse_row_error: "parse_row row = Inl e \<Longrightarrow> e = IndexError \<or> e = ValueError"
  by (cases "int_of_str (row ! 14)")
     (auto simp add: parse_row_def split: if_splits sum.splits
      dest: int_of_str_error strptime_error)

lemma next_row_error:
  "next_row cur row = Inl e \<Longrightarrow>
     e = IndexError \<or> e = ValueError \<or> (\<exists>r m. e = AssertionError r m)"
proof (cases "parse_row row")
  case (Inl e')
  assume "next_row cur row = Inl e"
  with parse_row_error [OF Inl] Inl show ?thesis
    by (auto simp add: next_row_def)
next
  case (Inr r)
  assume "next_row cur row = Inl e"
  then show ?thesis
    by (auto simp add: next_row_of_parsed [OF Inr] split: sum.splits if_splits
        dest: float_of_str_error)
qed

lemma next_row_not_stop: "next_row cur row \<noteq> Inl StopIteration"
  using next_row_error [of cur row StopIteration] by auto

lemma next_row_not_recursion: "next_row cur row \<noteq> Inl RecursionError"
  using next_row_error [of cur row RecursionError] by auto

subsection \<open>Opening balances are dated by the running date\<close>

text \<open>
  C1. When \<open>__next__\<close> returns a transaction for a row of category \<open>SYSTEM\<close>, the
  transaction's \<open>time\<close> is \<open>self.curr_date\<close> as it was when the row was read, whatever the
  row's own date and time fields say; and this transaction is what the call returns,
  whenever the call can be made at all.
  The instance that follows the theorem: with the initial date 2016-08-24, a first row that
  is an opening balance dated 2020-01-01 is returned with the time 2016-08-24.
\<close>

theorem opening_balance_time:
  assumes "next_row cur row = Inr (Return t cur')" and "row ! 3 = ''SYSTEM''"
  shows "time t = cur
    \<and> fst (AndroMoneyReader_next (Suc depth) \<lparr>reader = row # rest, curr_date = cur\<rparr>) = Inr t"
proof -
  from assms(1) obtain r where r: "parse_row row = Inr r"
    by (rule next_row_parsed)
  from parse_row_fields(2) [OF r] assms(2) have cat: "category r = ''SYSTEM''"
    by simp
  from assms(1) r cat have "time t = cur"
    by (auto simp add: next_row_def transaction.truncate_def split: if_splits sum.splits)
  moreover from assms(1)
  have "fst (AndroMoneyReader_next (Suc depth) \<lparr>reader = row # rest, curr_date = cur\<rparr>) = Inr t"
    by (simp add: next_Cons)
  ultimately show ?thesis
    by simp
qed

theorem opening_balance_time_witness:
  "next_row \<lparr>year = 2016, month = 8, day = 24, hour = 0, minute = 0\<rparr>
      [''1'', ''USD'', ''100'', ''SYSTEM'', ''INIT_AMOUNT'', ''20200101'', ''X'', ''Cash'',
       '''', '''', '''', ''P'', ''u1'', ''930'', '''']
     = Inr (Return
        \<lparr>id_no = 1, currency = ''USD'', amount = ''100'', category = ''SYSTEM'',
         from_account = ''Opening Balances'', to_account = ''Cash'', remark = '''',
         periodic = '''', project = '''', payee = ''INIT_AMOUNT'', uid = ''u1'',
         time = \<lparr>year = 2016, month = 8, day = 24, hour = 0, minute = 0\<rparr>, status = None\<rparr>
        \<lparr>year = 2016, month = 8, day = 24, hour = 0, minute = 0\<rparr>)
   \<and> time (projr (fst (AndroMoneyReader_next 1000
        \<lparr>reader = [[''1'', ''USD'', ''100'', ''SYSTEM'', ''INIT_AMOUNT'', ''20200101'', ''X'',
                    ''Cash'', '''', '''', '''', ''P'', ''u1'', ''930'', '''']],
         curr_date = \<lparr>year = 2016, month = 8, day = 24, hour = 0, minute = 0\<rparr>\<rparr>)))
     = \<lparr>year = 2016, month = 8, day = 24, hour = 0, minute = 0\<rparr>"
proof -
  let ?cur = "\<lparr>year = 2016, month = 8, day = 24, hour = 0, minute = 0\<rparr>"
  let ?row = "[''1'', ''USD'', ''100'', ''SYSTEM'', ''INIT_AMOUNT'', ''20200101'', ''X'', ''Cash'',
       '''', '''', '''', ''P'', ''u1'', ''930'', '''']"
  let ?t = "\<lparr>id_no = 1, currency = ''USD'', amount = ''100'', category = ''SYSTEM'',
         from_account = ''Opening Balances'', to_account = ''Cash'', remark = '''',
         periodic = '''', project = '''', payee = ''INIT_AMOUNT'', uid = ''u1'',
         time = ?cur, status = None\<rparr>"
  have h1: "next_row ?cur ?row = Inr (Return ?t ?cur)"
    by code_simp
  have h2: "?row ! 3 = ''SYSTEM''"
    by simp
  from opening_balance_time [OF h1 h2, where depth = 999 and rest = "[]"] h1 show ?thesis
    by simp
qed

subsection \<open>Opening balances of amount zero are skipped\<close>

text \<open>
  C2. A row of category \<open>SYSTEM\<close> and sub-category \<open>INIT_AMOUNT\<close> with the amount
  \<open>0.0000001\<close>, at most \<open>1e-6\<close> as a float, is skipped: \<open>__next__\<close> raises nothing for it and
  calls itself on the rows that follow; after three such rows a row with the amount
  \<open>0.01\<close> is what the call returns, dated by the running date. But each skipped row takes
  one nested call. With 1000 nested calls left, more than the interpreter's default
  limit leaves, a run of 1000 such rows ends in a \<open>RecursionError\<close>, raised by the call
  for the row after the run: the rows of the run are read, no transaction is returned
  and the row after the run is not read.
\<close>

theorem zero_opening_balance_recursion_limit:
  "next_row \<lparr>year = 2016, month = 8, day = 24, hour = 0, minute = 0\<rparr>
      [''3'', ''USD'', ''0.0000001'', ''SYSTEM'', ''INIT_AMOUNT'', ''20200101'', ''X'', ''Cash'',
       '''', '''', '''', ''P'', ''u3'', ''0'', '''']
     = Inr Again
   \<and> AndroMoneyReader_next 1000
        \<lparr>reader = replicate 3
                   [''3'', ''USD'', ''0.0000001'', ''SYSTEM'', ''INIT_AMOUNT'', ''20200101'', ''X'',
                    ''Cash'', '''', '''', '''', ''P'', ''u3'', ''0'', '''']
                 @ [[''4'', ''USD'', ''0.01'', ''SYSTEM'', ''INIT_AMOUNT'', ''20200101'', ''X'',
                    ''Cash'', '''', '''', '''', ''P'', ''u4'', ''0'', ''1'']],
         curr_date = \<lparr>year = 2016, month = 8, day = 24, hour = 0, minute = 0\<rparr>\<rparr>
     = (Inr \<lparr>id_no = 4, currency = ''USD'', amount = ''0.01'', category = ''SYSTEM'',
             from_account = ''Opening Balances'', to_account = ''Cash'', remark = '''',
             periodic = '''', project = '''', payee = ''INIT_AMOUNT'', uid = ''u4'',
             time = \<lparr>year = 2016, month = 8, day = 24, hour = 0, minute = 0\<rparr>,
             status = Some 1\<rparr>,
        \<lparr>reader = [], curr_date = \<lparr>year = 2016, month = 8, day = 24, hour = 0, minute = 0\<rparr>\<rparr>)
   \<and> AndroMoneyReader_next 1000
        \<lparr>reader = replicate 1000
                   [''3'', ''USD'', ''0.0000001'', ''SYSTEM'', ''INIT_AMOUNT'', ''20200101'', ''X'',
                    ''Cash'', '''', '''', '''', ''P'', ''u3'', ''0'', '''']
                 @ [[''4'', ''USD'', ''0.01'', ''SYSTEM'', ''INIT_AMOUNT'', ''20200101'', ''X'',
                    ''Cash'', '''', '''', '''', ''P'', ''u4'', ''0'', ''1'']],
         curr_date = \<lparr>year = 2016, month = 8, day = 24, hour = 0, minute = 0\<rparr>\<rparr>
     = (Inl RecursionError,
        \<lparr>reader = [[''4'', ''USD'', ''0.01'', ''SYSTEM'', ''INIT_AMOUNT'', ''20200101'', ''X'',
                    ''Cash'', '''', '''', '''', ''P'', ''u4'', ''0'', ''1'']],
         curr_date = \<lparr>year = 2016, month = 8, day = 24, hour = 0, minute = 0\<rparr>\<rparr>)"
proof -
  let ?cur = "\<lparr>year = 2016, month = 8, day = 24, hour = 0, minute = 0\<rparr>"
  let ?zero = "[''3'', ''USD'', ''0.0000001'', ''SYSTEM'', ''INIT_AMOUNT'', ''20200101'', ''X'',
       ''Cash'', '''', '''', '''', ''P'', ''u3'', ''0'', '''']"
  let ?cent = "[''4'', ''USD'', ''0.01'', ''SYSTEM'', ''INIT_AMOUNT'', ''20200101'', ''X'',
       ''Cash'', '''', '''', '''', ''P'', ''u4'', ''0'', ''1'']"
  let ?t = "\<lparr>id_no = 4, currency = ''USD'', amount = ''0.01'', category = ''SYSTEM'',
       from_account = ''Opening Balances'', to_account = ''Cash'', remark = '''',
       periodic = '''', project = '''', payee = ''INIT_AMOUNT'', uid = ''u4'',
       time = ?cur, status = Some 1\<rparr>"
  have skip: "next_row ?cur ?zero = Inr Again"
    by code_simp
  have ret: "next_row ?cur ?cent = Inr (Return ?t ?cur)"
    by code_simp
  have short: "AndroMoneyReader_next 1000 \<lparr>reader = replicate 3 ?zero @ [?cent], curr_date = ?cur\<rparr>
      = (Inr ?t, \<lparr>reader = [], curr_date = ?cur\<rparr>)"
    using next_skip_run [OF skip, of 3 997 "[?cent]"] next_Cons [of 996 ?cent "[]" ?cur] ret
    by simp
  have long: "AndroMoneyReader_next 1000 \<lparr>reader = replicate 1000 ?zero @ [?cent], curr_date = ?cur\<rparr>
      = (Inl RecursionError, \<lparr>reader = [?cent], curr_date = ?cur\<rparr>)"
    using next_skip_run [OF skip, of 1000 0 "[?cent]"]
    by (simp add: next_zero)
  from skip short long show ?thesis
    by (intro conjI)
qed

subsection \<open>Expenses\<close>

text \<open>
  C3. A row that is read without error, with a status that is absent, 0 or 1, and a
  category that is none of \<open>SYSTEM\<close>, \<open>Transfer\<close> and \<open>Income\<close> is returned as a
  transaction, by every call of \<open>__next__\<close> that can be made, of category \<open>Expense\<close> whose
  \<open>to_account\<close> is the row's category, a colon and the row's sub-category. The instance
  that follows: \<open>Food\<close> and \<open>Lunch\<close> give \<open>Food:Lunch\<close>.
\<close>

theorem expense_category_and_account:
  assumes "parse_row row = Inr r"
    and "status r \<in> set [None, Some 0, Some 1]"
    and "row ! 3 \<notin> {''SYSTEM'', ''Transfer'', ''Income''}"
  shows "\<exists>t. next_row cur row = Inr (Return t (time r))
           \<and> (\<forall>depth. fst (AndroMoneyReader_next (Suc depth)
                             \<lparr>reader = row # rest, curr_date = cur\<rparr>) = Inr t)
           \<and> category t = ''Expense'' \<and> to_account t = row ! 3 @ '':'' @ row ! 4"
  using assms parse_row_fields(2,3) [OF assms(1)]
  by (simp add: next_row_of_parsed [OF assms(1)] next_Cons transaction.truncate_def)

theorem expense_category_and_account_witness:
  "\<exists>t. next_row \<lparr>year = 2016, month = 8, day = 24, hour = 0, minute = 0\<rparr>
          [''2'', ''USD'', ''12.50'', ''Food'', ''Lunch'', ''20210305'', ''Checking'', '''', '''',
           '''', '''', ''Bob'', ''123'', ''1230'', '''']
        = Inr (Return t \<lparr>year = 2021, month = 3, day = 5, hour = 12, minute = 30\<rparr>)
      \<and> category t = ''Expense'' \<and> to_account t = ''Food:Lunch''"
proof -
  let ?cur = "\<lparr>year = 2016, month = 8, day = 24, hour = 0, minute = 0\<rparr>"
  let ?row = "[''2'', ''USD'', ''12.50'', ''Food'', ''Lunch'', ''20210305'', ''Checking'', '''', '''',
       '''', '''', ''Bob'', ''123'', ''1230'', '''']"
  let ?r = "\<lparr>id_no = 2, currency = ''USD'', amount = ''12.50'', category = ''Food'',
       from_account = ''Checking'', to_account = '''', remark = '''', periodic = '''',
       project = '''', payee = ''Bob'', uid = ''123'',
       time = \<lparr>year = 2021, month = 3, day = 5, hour = 12, minute = 30\<rparr>, status = None,
       sub_category = ''Lunch''\<rparr>"
  have p: "parse_row ?row = Inr ?r"
    by code_simp
  have s: "status ?r \<in> set [None, Some 0, Some 1]"
    by simp
  have c: "?row ! 3 \<notin> {''SYSTEM'', ''Transfer'', ''Income''}"
    by simp
  from expense_category_and_account [OF p s c, of ?cur "[]"] show ?thesis
    by auto
qed

subsection \<open>The block written for one transaction\<close>

text \<open>
  C7. For the payee Bob, the date 2021-03-05, the leg \<open>Expenses:Food:Lunch\<close> with the
  amount 12.50 USD, the leg \<open>Asset:Checking\<close> without amount and the tags of the unique id
  123 and the time 1230, \<open>LedgerWriter.write\<close> raises nothing and writes exactly the title
  line, the leg with the amount and then the other leg, each indented by four spaces, the
  two tag lines and an empty line. \<open>generateLedger\<close> makes this call for the expense
  transaction with these values. White space inside an account is collapsed to one space,
  white space inside the name of a tag becomes an underscore and a line break inside its
  value a space.
\<close>

theorem write_block_example:
  "LedgerWriter_write \<lparr>writer = [], indent = 4\<rparr>
      \<lparr>year = 2021, month = 3, day = 5, hour = 12, minute = 30\<rparr> ''Bob'' None
      [\<lparr>account = ''Expenses:Food:Lunch'', leg_amount = Some (''12.50'', ''USD''),
        effective_dates = None\<rparr>,
       \<lparr>account = ''Asset:Checking'', leg_amount = None, effective_dates = None\<rparr>] []
      [(''AndroMoney_uid'', ''123''), (''AndroMoney_time'', ''1230'')]
     = (None,
        \<lparr>writer = ''2021-03-05 * Bob\<newline>    Expenses:Food:Lunch  12.50 USD\<newline>    Asset:Checking\<newline>    ; :AndroMoney_uid: 123\<newline>    ; :AndroMoney_time: 1230\<newline>\<newline>'',
         indent = 4\<rparr>)
   \<and> write_row \<lparr>writer = [], indent = 4\<rparr>
      \<lparr>id_no = 7, currency = ''USD'', amount = ''12.50'', category = ''Expense'',
       from_account = ''Checking'', to_account = ''Food:Lunch'', remark = '''', periodic = '''',
       project = '''', payee = ''Bob'', uid = ''123'',
       time = \<lparr>year = 2021, month = 3, day = 5, hour = 12, minute = 30\<rparr>, status = None\<rparr>
     = (None,
        \<lparr>writer = ''2021-03-05 * Bob\<newline>    Expenses:Food:Lunch  12.50 USD\<newline>    Asset:Checking\<newline>    ; :AndroMoney_uid: 123\<newline>    ; :AndroMoney_time: 1230\<newline>\<newline>'',
         indent = 4\<rparr>)
   \<and> write_single_account \<lparr>writer = [], indent = 4\<rparr> ''Asset:My   Bank '' None None
     = (None, \<lparr>writer = ''    Asset:My Bank\<newline>'', indent = 4\<rparr>)
   \<and> write_tag \<lparr>writer = [], indent = 4\<rparr> ''my tag'' ''first\<newline>second''
     = \<lparr>writer = ''    ; :my_tag: first second\<newline>'', indent = 4\<rparr>"
  by code_simp

subsection \<open>The account types of the two legs\<close>

text \<open>
  C4. For every transaction that \<open>__next__\<close> returns, the legs that \<open>generateLedger\<close>
  builds are the \<open>to_account\<close> with the amount, then the \<open>from_account\<close> without one, each
  under the account type that the two tables give for the transaction's category: for a
  row of category \<open>SYSTEM\<close> the types \<open>Asset\<close> and \<open>Equity\<close>, for \<open>Transfer\<close> \<open>Asset\<close> and \<open>Asset\<close>,
  for \<open>Income\<close> \<open>Asset\<close> and \<open>Income\<close>, for any other row, an expense, \<open>Expenses\<close> and \<open>Asset\<close>.
  The lookup in the tables never fails.
\<close>

theorem account_types_by_category:
  assumes "next_row cur row = Inr (Return t cur')"
  shows "(row ! 3 = ''SYSTEM'' \<longrightarrow>
            category t = ''SYSTEM''
          \<and> changed_account_of t = Inr
              [\<lparr>account = ''Asset:'' @ to_account t,
                leg_amount = Some (amount t, currency t), effective_dates = None\<rparr>,
               \<lparr>account = ''Equity:'' @ from_account t,
                leg_amount = None, effective_dates = None\<rparr>])
      \<and> (row ! 3 = ''Transfer'' \<longrightarrow>
            category t = ''Transfer''
          \<and> changed_account_of t = Inr
              [\<lparr>account = ''Asset:'' @ to_account t,
                leg_amount = Some (amount t, currency t), effective_dates = None\<rparr>,
               \<lparr>account = ''Asset:'' @ from_account t,
                leg_amount = None, effective_dates = None\<rparr>])
      \<and> (row ! 3 = ''Income'' \<longrightarrow>
            category t = ''Income''
          \<and> changed_account_of t = Inr
              [\<lparr>account = ''Asset:'' @ to_account t,
                leg_amount = Some (amount t, currency t), effective_dates = None\<rparr>,
               \<lparr>account = ''Income:'' @ from_account t,
                leg_amount = None, effective_dates = None\<rparr>])
      \<and> (row ! 3 \<notin> {''SYSTEM'', ''Transfer'', ''Income''} \<longrightarrow>
            category t = ''Expense''
          \<and> changed_account_of t = Inr
              [\<lparr>account = ''Expenses:'' @ to_account t,
                leg_amount = Some (amount t, currency t), effective_dates = None\<rparr>,
               \<lparr>account = ''Asset:'' @ from_account t,
                leg_amount = None, effective_dates = None\<rparr>])"
proof -
  from assms obtain r where r: "parse_row row = Inr r"
    by (rule next_row_parsed)
  note cat = parse_row_fields(2) [OF r]
  from assms cat show ?thesis
    by (auto simp add: next_row_of_parsed [OF r] transaction.truncate_def changed_account_of_def
          getitem_def TO_ACCOUNT_TYPE_def FROM_ACCOUNT_TYPE_def
        split: if_splits sum.splits)
qed

theorem account_types_by_category_witness:
  "changed_account_of
     \<lparr>id_no = 5, currency = ''USD'', amount = ''7'', category = ''Transfer'',
      from_account = ''Wallet'', to_account = ''Bank'', remark = '''', periodic = '''',
      project = '''', payee = ''Move'', uid = ''125'',
      time = \<lparr>year = 2021, month = 3, day = 7, hour = 0, minute = 15\<rparr>, status = Some 1\<rparr>
   = Inr [\<lparr>account = ''Asset:Bank'', leg_amount = Some (''7'', ''USD''), effective_dates = None\<rparr>,
          \<lparr>account = ''Asset:Wallet'', leg_amount = None, effective_dates = None\<rparr>]"
proof -
  let ?cur = "\<lparr>year = 2016, month = 8, day = 24, hour = 0, minute = 0\<rparr>"
  let ?own = "\<lparr>year = 2021, month = 3, day = 7, hour = 0, minute = 15\<rparr>"
  let ?row = "[''5'', ''USD'', ''7'', ''Transfer'', ''Move'', ''20210307'', ''Wallet'', ''Bank'',
       '''', '''', '''', ''Ann'', ''125'', ''15'', ''1'']"
  let ?t = "\<lparr>id_no = 5, currency = ''USD'', amount = ''7'', category = ''Transfer'',
      from_account = ''Wallet'', to_account = ''Bank'', remark = '''', periodic = '''',
      project = '''', payee = ''Move'', uid = ''125'', time = ?own, status = Some 1\<rparr>"
  have h: "next_row ?cur ?row = Inr (Return ?t ?own)"
    by code_simp
  have c: "?row ! 3 = ''Transfer''"
    by simp
  from account_types_by_category [OF h] c show ?thesis
    by simp
qed

subsection \<open>The two assertions\<close>

text \<open>
  C5. Reading a row ends in an \<open>AssertionError\<close> exactly when the row is read without
  error and either its status is present and neither 0 nor 1, or its category is
  \<open>SYSTEM\<close> and its sub-category is not \<open>INIT_AMOUNT\<close>. The error then carries the dictionary
  built from this row. A row that cannot be read raises \<open>IndexError\<close> or \<open>ValueError\<close>
  before either assertion is reached. The instance that follows: the status \<open>2\<close>.
\<close>

theorem assertion_error_iff:
  "((\<exists>r m. next_row cur row = Inl (AssertionError r m))
      \<longleftrightarrow> (\<exists>r. parse_row row = Inr r
              \<and> ((\<exists>i. status r = Some i \<and> i \<noteq> 0 \<and> i \<noteq> 1)
                 \<or> (category r = ''SYSTEM'' \<and> sub_category r \<noteq> ''INIT_AMOUNT''))))
   \<and> (\<forall>r m. next_row cur row = Inl (AssertionError r m) \<longrightarrow> parse_row row = Inr r)"
proof (cases "parse_row row")
  case (Inl e)
  from parse_row_error [OF Inl] Inl show ?thesis
    by (auto simp add: next_row_def)
next
  case (Inr r)
  show ?thesis
    by (cases "status r")
       (auto simp add: Inr next_row_of_parsed [OF Inr] split: sum.splits dest: float_of_str_error)
qed

theorem assertion_error_iff_witness:
  "parse_row [''5'', ''USD'', ''7'', ''Transfer'', ''Move'', ''20210307'', ''Wallet'', ''Bank'',
       '''', '''', '''', ''Ann'', ''125'', ''15'', ''2'']
     = Inr \<lparr>id_no = 5, currency = ''USD'', amount = ''7'', category = ''Transfer'',
        from_account = ''Wallet'', to_account = ''Bank'', remark = '''', periodic = '''',
        project = '''', payee = ''Ann'', uid = ''125'',
        time = \<lparr>year = 2021, month = 3, day = 7, hour = 0, minute = 15\<rparr>, status = Some 2,
        sub_category = ''Move''\<rparr>
   \<and> (\<exists>r m. next_row \<lparr>year = 2016, month = 8, day = 24, hour = 0, minute = 0\<rparr>
          [''5'', ''USD'', ''7'', ''Transfer'', ''Move'', ''20210307'', ''Wallet'', ''Bank'',
           '''', '''', '''', ''Ann'', ''125'', ''15'', ''2'']
        = Inl (AssertionError r m))"
proof -
  let ?cur = "\<lparr>year = 2016, month = 8, day = 24, hour = 0, minute = 0\<rparr>"
  let ?row = "[''5'', ''USD'', ''7'', ''Transfer'', ''Move'', ''20210307'', ''Wallet'', ''Bank'',
       '''', '''', '''', ''Ann'', ''125'', ''15'', ''2'']"
  let ?r = "\<lparr>id_no = 5, currency = ''USD'', amount = ''7'', category = ''Transfer'',
        from_account = ''Wallet'', to_account = ''Bank'', remark = '''', periodic = '''',
        project = '''', payee = ''Ann'', uid = ''125'',
        time = \<lparr>year = 2021, month = 3, day = 7, hour = 0, minute = 15\<rparr>, status = Some 2,
        sub_category = ''Move''\<rparr>"
  have p: "parse_row ?row = Inr ?r"
    by code_simp
  have s: "\<exists>i. status ?r = Some i \<and> i \<noteq> 0 \<and> i \<noteq> 1"
    by simp
  from p s have "\<exists>r. parse_row ?row = Inr r
      \<and> ((\<exists>i. status r = Some i \<and> i \<noteq> 0 \<and> i \<noteq> 1)
         \<or> (category r = ''SYSTEM'' \<and> sub_category r \<noteq> ''INIT_AMOUNT''))"
    by blast
  with assertion_error_iff [of ?cur ?row] p show ?thesis
    by blast
qed

subsection \<open>Effective dates\<close>

lemma write_single_account_plain:
  "fst (write_single_account self acc amt None) = None"
  by (simp add: write_single_account_def Let_def split: option.splits prod.splits)

lemma write_accounts_effective_dates:
  "\<exists>a \<in> set legs. effective_dates a \<noteq> None \<Longrightarrow>
     fst (write_accounts self legs) = Some NotImplementedError"
proof (induction legs arbitrary: self)
  case Nil
  then show ?case
    by simp
next
  case (Cons a legs)
  show ?case
  proof (cases "effective_dates a")
    case (Some ds)
    then show ?thesis
      by simp
  next
    case None
    with Cons.prems have rest: "\<exists>a \<in> set legs. effective_dates a \<noteq> None"
      by auto
    obtain e s where ws: "write_single_account self (account a) (leg_amount a) None = (e, s)"
      by (cases "write_single_account self (account a) (leg_amount a) None")
    with write_single_account_plain [of self "account a" "leg_amount a"] have "e = None"
      by simp
    with ws None Cons.IH [OF rest, of s] show ?thesis
      by simp
  qed
qed

text \<open>
  C6, as stated, fails: with an effective date for the transaction, \<open>LedgerWriter.write\<close>
  raises an \<open>AttributeError\<close>, not a \<open>NotImplementedError\<close>.
\<close>

theorem effective_date_attribute_error:
  "fst (LedgerWriter_write \<lparr>writer = [], indent = 4\<rparr>
         \<lparr>year = 2021, month = 3, day = 5, hour = 12, minute = 30\<rparr> ''Bob''
         (Some \<lparr>year = 2021, month = 3, day = 6, hour = 0, minute = 0\<rparr>) [] [] [])
     = Some AttributeError
   \<and> fst (LedgerWriter_write \<lparr>writer = [], indent = 4\<rparr>
         \<lparr>year = 2021, month = 3, day = 5, hour = 12, minute = 30\<rparr> ''Bob''
         (Some \<lparr>year = 2021, month = 3, day = 6, hour = 0, minute = 0\<rparr>) [] [] [])
     \<noteq> Some NotImplementedError"
  by (simp add: LedgerWriter_write_def Let_def)

text \<open>
  C6, amended. In a call of \<open>LedgerWriter.write\<close> without an effective date for the
  transaction, an entry \<open>effective_dates\<close> in any of the legs makes the call raise a
  \<open>NotImplementedError\<close>; and \<open>write_single_account\<close> raises it whenever it is given an
  effective date.
\<close>

theorem leg_effective_dates_not_implemented:
  assumes "\<exists>a \<in> set changed_account. effective_dates a \<noteq> None"
  shows "fst (LedgerWriter_write self d p None changed_account rk tags) = Some NotImplementedError
     \<and> (\<forall>w acc amt dd. fst (write_single_account w acc amt (Some dd)) = Some NotImplementedError)"
proof -
  let ?s = "emit (emit self (strftime_Ymd d)) ('' * '' @ p @ [CHR 0x0A])"
  from write_accounts_effective_dates [OF assms, of ?s]
  have "fst (LedgerWriter_write self d p None changed_account rk tags) = Some NotImplementedError"
    by (cases "write_accounts ?s changed_account") (simp add: LedgerWriter_write_def Let_def)
  moreover
  have "\<forall>w acc amt dd. fst (write_single_account w acc amt (Some dd)) = Some NotImplementedError"
    by (simp add: write_single_account_def Let_def)
  ultimately show ?thesis
    by simp
qed

theorem leg_effective_dates_not_implemented_witness:
  "fst (LedgerWriter_write \<lparr>writer = [], indent = 4\<rparr>
         \<lparr>year = 2021, month = 3, day = 5, hour = 12, minute = 30\<rparr> ''Bob'' None
         [\<lparr>account = ''Expenses:Food:Lunch'', leg_amount = Some (''12.50'', ''USD''),
           effective_dates = None\<rparr>,
          \<lparr>account = ''Asset:Checking'', leg_amount = None,
           effective_dates = Some [\<lparr>year = 2021, month = 3, day = 6, hour = 0, minute = 0\<rparr>]\<rparr>]
         [] [(''AndroMoney_uid'', ''123'')])
     = Some NotImplementedError"
proof -
  let ?legs = "[\<lparr>account = ''Expenses:Food:Lunch'', leg_amount = Some (''12.50'', ''USD''),
           effective_dates = None\<rparr>,
          \<lparr>account = ''Asset:Checking'', leg_amount = None,
           effective_dates = Some [\<lparr>year = 2021, month = 3, day = 6, hour = 0, minute = 0\<rparr>]\<rparr>]"
  have h: "\<exists>a \<in> set ?legs. effective_dates a \<noteq> None"
    by simp
  from leg_effective_dates_not_implemented [OF h] show ?thesis
    by simp
qed

subsection \<open>The running date\<close>

text \<open>
  C8. What reading one row does to the reader's state. When the row raises, the running
  date keeps its value. When the row is skipped, it is a row of category \<open>SYSTEM\<close>, and
  the call continues, one call deeper, on the rows that follow with the running date it
  had. When the row is returned as a transaction, the running date keeps its value if the
  row's category is \<open>SYSTEM\<close>, and otherwise becomes the timestamp parsed from this row,
  which is also the transaction's time. In each case the state after the row is the rows
  that follow and the running date. A call that cannot be made, for the depth of the
  calls, leaves the state as it is.
\<close>

theorem curr_date_update:
  "(\<forall>e. next_row cur row = Inl e \<longrightarrow>
        snd (AndroMoneyReader_next (Suc depth) \<lparr>reader = row # rest, curr_date = cur\<rparr>)
          = \<lparr>reader = rest, curr_date = cur\<rparr>)
   \<and> (next_row cur row = Inr Again \<longrightarrow>
        row ! 3 = ''SYSTEM''
      \<and> AndroMoneyReader_next (Suc depth) \<lparr>reader = row # rest, curr_date = cur\<rparr>
          = AndroMoneyReader_next depth \<lparr>reader = rest, curr_date = cur\<rparr>)
   \<and> (\<forall>t cur'. next_row cur row = Inr (Return t cur') \<longrightarrow>
        snd (AndroMoneyReader_next (Suc depth) \<lparr>reader = row # rest, curr_date = cur\<rparr>)
          = \<lparr>reader = rest, curr_date = cur'\<rparr>
      \<and> (row ! 3 = ''SYSTEM'' \<longrightarrow> cur' = cur)
      \<and> (row ! 3 \<noteq> ''SYSTEM'' \<longrightarrow>
            cur' = time t \<and> (\<exists>r. parse_row row = Inr r \<and> cur' = time r)))
   \<and> snd (AndroMoneyReader_next 0 \<lparr>reader = row # rest, curr_date = cur\<rparr>)
       = \<lparr>reader = row # rest, curr_date = cur\<rparr>"
proof (cases "parse_row row")
  case (Inl e)
  then show ?thesis
    by (simp add: next_row_def next_Cons next_zero)
next
  case (Inr r)
  note cat = parse_row_fields(2) [OF Inr]
  show ?thesis
    using cat
    by (auto simp add: Inr next_row_of_parsed [OF Inr] next_Cons next_zero transaction.truncate_def
        split: sum.splits)
qed

theorem curr_date_update_witness:
  "snd (AndroMoneyReader_next 1000
      \<lparr>reader = [[''5'', ''USD'', ''7'', ''Transfer'', ''Move'', ''20210307'', ''Wallet'', ''Bank'',
                  '''', '''', '''', ''Ann'', ''125'', ''15'', ''1''],
                 [''1'', ''USD'', ''100'', ''SYSTEM'', ''INIT_AMOUNT'', ''20200101'', ''X'', ''Cash'',
                  '''', '''', '''', ''P'', ''u1'', ''930'', '''']],
       curr_date = \<lparr>year = 2016, month = 8, day = 24, hour = 0, minute = 0\<rparr>\<rparr>)
   = \<lparr>reader = [[''1'', ''USD'', ''100'', ''SYSTEM'', ''INIT_AMOUNT'', ''20200101'', ''X'', ''Cash'',
                  '''', '''', '''', ''P'', ''u1'', ''930'', '''']],
       curr_date = \<lparr>year = 2021, month = 3, day = 7, hour = 0, minute = 15\<rparr>\<rparr>
   \<and> snd (AndroMoneyReader_next 1000
      \<lparr>reader = [[''1'', ''USD'', ''100'', ''SYSTEM'', ''INIT_AMOUNT'', ''20200101'', ''X'', ''Cash'',
                  '''', '''', '''', ''P'', ''u1'', ''930'', '''']],
       curr_date = \<lparr>year = 2021, month = 3, day = 7, hour = 0, minute = 15\<rparr>\<rparr>)
   = \<lparr>reader = [], curr_date = \<lparr>year = 2021, month = 3, day = 7, hour = 0, minute = 15\<rparr>\<rparr>"
proof -
  let ?cur = "\<lparr>year = 2016, month = 8, day = 24, hour = 0, minute = 0\<rparr>"
  let ?own = "\<lparr>year = 2021, month = 3, day = 7, hour = 0, minute = 15\<rparr>"
  let ?move = "[''5'', ''USD'', ''7'', ''Transfer'', ''Move'', ''20210307'', ''Wallet'', ''Bank'',
       '''', '''', '''', ''Ann'', ''125'', ''15'', ''1'']"
  let ?init = "[''1'', ''USD'', ''100'', ''SYSTEM'', ''INIT_AMOUNT'', ''20200101'', ''X'', ''Cash'',
       '''', '''', '''', ''P'', ''u1'', ''930'', '''']"
  let ?t1 = "\<lparr>id_no = 5, currency = ''USD'', amount = ''7'', category = ''Transfer'',
      from_account = ''Wallet'', to_account = ''Bank'', remark = '''', periodic = '''',
      project = '''', payee = ''Move'', uid = ''125'', time = ?own, status = Some 1\<rparr>"
  let ?t2 = "\<lparr>id_no = 1, currency = ''USD'', amount = ''100'', category = ''SYSTEM'',
      from_account = ''Opening Balances'', to_account = ''Cash'', remark = '''',
      periodic = '''', project = '''', payee = ''INIT_AMOUNT'', uid = ''u1'',
      time = ?own, status = None\<rparr>"
  have h1: "next_row ?cur ?move = Inr (Return ?t1 ?own)"
    by code_simp
  have h2: "next_row ?own ?init = Inr (Return ?t2 ?own)"
    by code_simp
  from curr_date_update [of ?cur ?move 999 "[?init]"] h1
    curr_date_update [of ?own ?init 999 "[]"] h2
  show ?thesis
    by simp
qed

subsection \<open>The payee field of a row\<close>

lemma parse_row_payee:
  "parse_row (a[11 := p]) = (case parse_row a of Inl e \<Rightarrow> Inl e | Inr r \<Rightarrow> Inr (r\<lparr>payee := p\<rparr>))"
  by (cases "int_of_str (a ! 14)")
     (auto simp add: parse_row_def split: sum.splits)

lemma next_row_payee:
  assumes "a ! 3 \<in> {''SYSTEM'', ''Transfer''}"
  shows "next_row cur (a[11 := p]) = next_row cur a
       \<or> (isl (next_row cur (a[11 := p])) \<and> isl (next_row cur a))"
proof (cases "parse_row a")
  case (Inl e)
  then show ?thesis
    by (simp add: next_row_def parse_row_payee)
next
  case (Inr r)
  have p: "parse_row (a[11 := p]) = Inr (r\<lparr>payee := p\<rparr>)"
    by (simp add: parse_row_payee Inr)
  from assms parse_row_fields(2) [OF Inr]
  have "category r = ''SYSTEM'' \<or> category r = ''Transfer''"
    by auto
  then show ?thesis
    by (auto simp add: next_row_of_parsed [OF Inr] next_row_of_parsed [OF p]
          transaction.truncate_def
        split: sum.splits)
qed

lemma next_payee:
  assumes "list_all2 (\<lambda>a b. b = a \<or> (a ! 3 \<in> {''SYSTEM'', ''Transfer''} \<and> (\<exists>p. b = a[11 := p])))
             rows rows'"
  shows "(\<exists>t c rs rs'.
            AndroMoneyReader_next depth \<lparr>reader = rows, curr_date = cur\<rparr>
              = (Inr t, \<lparr>reader = rs, curr_date = c\<rparr>)
          \<and> AndroMoneyReader_next depth \<lparr>reader = rows', curr_date = cur\<rparr>
              = (Inr t, \<lparr>reader = rs', curr_date = c\<rparr>)
          \<and> list_all2 (\<lambda>a b. b = a \<or> (a ! 3 \<in> {''SYSTEM'', ''Transfer''} \<and> (\<exists>p. b = a[11 := p])))
               rs rs')
       \<or> (\<exists>e e' rd rd'.
            AndroMoneyReader_next depth \<lparr>reader = rows, curr_date = cur\<rparr> = (Inl e, rd)
          \<and> AndroMoneyReader_next depth \<lparr>reader = rows', curr_date = cur\<rparr> = (Inl e', rd')
          \<and> (e = StopIteration \<longleftrightarrow> e' = StopIteration))"
  using assms
proof (induction arbitrary: depth rule: list_all2_induct)
  case Nil
  show ?case
    by (cases depth) (simp_all add: next_Nil next_zero)
next
  case (Cons a rows b rows')
  show ?case
  proof (cases depth)
    case 0
    then show ?thesis
      by (simp add: next_zero)
  next
    case (Suc d)
    from Cons.hyps(1) next_row_payee [of a cur]
    have "next_row cur b = next_row cur a \<or> (isl (next_row cur b) \<and> isl (next_row cur a))"
      by auto
    then show ?thesis
    proof
      assume same: "next_row cur b = next_row cur a"
      show ?thesis
      proof (cases "next_row cur a")
        case (Inl e)
        with same Suc show ?thesis
          by (simp add: next_Cons)
      next
        case (Inr s)
        show ?thesis
        proof (cases s)
          case Again
          with Inr same Suc Cons.IH [of d] show ?thesis
            by (simp add: next_Cons)
        next
          case (Return t c)
          with Inr same Suc Cons.hyps(2) show ?thesis
            by (simp add: next_Cons)
        qed
      qed
    next
      assume "isl (next_row cur b) \<and> isl (next_row cur a)"
      then obtain e e' where "next_row cur a = Inl e" and "next_row cur b = Inl e'"
        by (auto simp add: isl_def)
      with next_row_not_stop [of cur a] next_row_not_stop [of cur b] Suc show ?thesis
        by (auto simp add: next_Cons)
    qed
  qed
qed

lemma next_payee_rd:
  assumes "list_all2 (\<lambda>a b. b = a \<or> (a ! 3 \<in> {''SYSTEM'', ''Transfer''} \<and> (\<exists>p. b = a[11 := p])))
             (reader rd) (reader rd')"
    and "curr_date rd = curr_date rd'"
  shows "(\<exists>t r1 r2.
            AndroMoneyReader_next depth rd = (Inr t, r1)
          \<and> AndroMoneyReader_next depth rd' = (Inr t, r2)
          \<and> list_all2 (\<lambda>a b. b = a \<or> (a ! 3 \<in> {''SYSTEM'', ''Transfer''} \<and> (\<exists>p. b = a[11 := p])))
               (reader r1) (reader r2)
          \<and> curr_date r1 = curr_date r2)
       \<or> (\<exists>e e' r1 r2.
            AndroMoneyReader_next depth rd = (Inl e, r1)
          \<and> AndroMoneyReader_next depth rd' = (Inl e', r2)
          \<and> (e = StopIteration \<longleftrightarrow> e' = StopIteration))"
proof -
  obtain rows cur where rd: "rd = \<lparr>reader = rows, curr_date = cur\<rparr>"
    by (cases rd)
  obtain rows' cur' where rd': "rd' = \<lparr>reader = rows', curr_date = cur'\<rparr>"
    by (cases rd')
  from assms rd rd' have c: "cur' = cur"
    and r: "list_all2 (\<lambda>a b. b = a \<or> (a ! 3 \<in> {''SYSTEM'', ''Transfer''} \<and> (\<exists>p. b = a[11 := p])))
              rows rows'"
    by simp_all
  from next_payee [OF r, of depth cur] show ?thesis
    unfolding rd rd' c by fastforce
qed

lemma loop_payee:
  assumes "list_all2 (\<lambda>a b. b = a \<or> (a ! 3 \<in> {''SYSTEM'', ''Transfer''} \<and> (\<exists>p. b = a[11 := p])))
             (reader rd) (reader rd')"
    and "curr_date rd = curr_date rd'"
  shows "snd (generateLedger_loop depth rd w) = snd (generateLedger_loop depth rd' w)
       \<and> (fst (generateLedger_loop depth rd w) = None
          \<longleftrightarrow> fst (generateLedger_loop depth rd' w) = None)"
  using assms
proof (induction depth rd w arbitrary: rd' rule: generateLedger_loop.induct)
  case (1 depth rd w)
  from next_payee_rd [OF "1.prems", of depth] show ?case
  proof (elim disjE exE conjE)
    fix t r1 r2
    assume n1: "AndroMoneyReader_next depth rd = (Inr t, r1)"
      and n2: "AndroMoneyReader_next depth rd' = (Inr t, r2)"
      and rel: "list_all2 (\<lambda>a b. b = a \<or> (a ! 3 \<in> {''SYSTEM'', ''Transfer''} \<and> (\<exists>p. b = a[11 := p])))
               (reader r1) (reader r2)"
      and cd: "curr_date r1 = curr_date r2"
    obtain x w' where wr: "write_row w t = (x, w')"
      by (cases "write_row w t")
    show ?thesis
    proof (cases x)
      case None
      have "snd (generateLedger_loop depth r1 w') = snd (generateLedger_loop depth r2 w')
          \<and> (fst (generateLedger_loop depth r1 w') = None
             \<longleftrightarrow> fst (generateLedger_loop depth r2 w') = None)"
        by (rule "1.IH" [OF n1 [symmetric] refl wr [symmetric] None rel cd])
      with n1 n2 wr None show ?thesis
        by (simp add: generateLedger_loop.simps [of depth rd w]
              generateLedger_loop.simps [of depth rd' w])
    next
      case (Some e)
      with n1 n2 wr show ?thesis
        by (simp add: generateLedger_loop.simps [of depth rd w]
              generateLedger_loop.simps [of depth rd' w])
    qed
  next
    fix e e' r1 r2
    assume "AndroMoneyReader_next depth rd = (Inl e, r1)"
      and "AndroMoneyReader_next depth rd' = (Inl e', r2)"
      and "e = StopIteration \<longleftrightarrow> e' = StopIteration"
    then show ?thesis
      by (simp add: generateLedger_loop.simps [of depth rd w]
            generateLedger_loop.simps [of depth rd' w])
  qed
qed

text \<open>What the writer appends begins with the title line of the transaction.\<close>

lemma write_single_account_appends:
  "\<exists>s. writer (snd (write_single_account w acc amt ed)) = writer w @ s"
  by (cases amt; cases ed) (auto simp add: write_single_account_def emit_def Let_def)

lemma write_accounts_appends:
  "\<exists>s. writer (snd (write_accounts w legs)) = writer w @ s"
proof (induction legs arbitrary: w)
  case Nil
  show ?case
    by simp
next
  case (Cons a legs)
  show ?case
  proof (cases "effective_dates a")
    case (Some ds)
    then show ?thesis
      by simp
  next
    case None
    obtain e w1 where ws: "write_single_account w (account a) (leg_amount a) None = (e, w1)"
      by (cases "write_single_account w (account a) (leg_amount a) None")
    with write_single_account_appends [of w "account a" "leg_amount a" None]
    obtain s1 where s1: "writer w1 = writer w @ s1"
      by auto
    from Cons.IH [of w1] obtain s2 where "writer (snd (write_accounts w1 legs)) = writer w1 @ s2"
      by auto
    with s1 ws None show ?thesis
      by (cases e) auto
  qed
qed

lemma write_tags_appends:
  "\<exists>s. writer (write_tags w tags) = writer w @ s"
proof (induction tags arbitrary: w)
  case Nil
  show ?case
    by simp
next
  case (Cons tv tags)
  obtain tag val where tv: "tv = (tag, val)"
    by (cases tv)
  from Cons.IH [of "write_tag w tag val"] tv show ?case
    by (auto simp add: write_tag_def emit_def)
qed

lemma write_title:
  "\<exists>s. writer (snd (LedgerWriter_write w d p None legs rk tags))
        = writer w @ strftime_Ymd d @ '' * '' @ p @ [CHR 0x0A] @ s"
proof -
  let ?w2 = "emit (emit w (strftime_Ymd d)) ('' * '' @ p @ [CHR 0x0A])"
  obtain e w3 where wa: "write_accounts ?w2 legs = (e, w3)"
    by (cases "write_accounts ?w2 legs")
  with write_accounts_appends [of ?w2 legs] obtain s1 where s1: "writer w3 = writer ?w2 @ s1"
    by auto
  from write_tags_appends [of w3 tags] obtain s2 where s2: "writer (write_tags w3 tags) = writer w3 @ s2"
    by auto
  from wa s1 s2 show ?thesis
    by (cases e) (auto simp add: LedgerWriter_write_def Let_def emit_def)
qed

lemma changed_account_of_returned:
  assumes "next_row cur row = Inr (Return t c)"
  shows "\<exists>legs. changed_account_of t = Inr legs"
proof -
  from assms obtain r where r: "parse_row row = Inr r"
    by (rule next_row_parsed)
  from assms show ?thesis
    by (auto simp add: next_row_of_parsed [OF r] transaction.truncate_def changed_account_of_def
          getitem_def TO_ACCOUNT_TYPE_def FROM_ACCOUNT_TYPE_def
        split: if_splits sum.splits)
qed

text \<open>
  C9, as stated, fails: two expense rows that differ in the payee field only give two
  different ledger texts, since the title line of an expense carries that field.
\<close>

theorem payee_changes_expense_output:
  "snd (generateLedger 1000
      \<lparr>reader = [[''2'', ''USD'', ''12.50'', ''Food'', ''Lunch'', ''20210305'', ''Checking'', '''',
                  '''', '''', '''', ''Bob'', ''123'', ''1230'', '''']],
       curr_date = \<lparr>year = 2016, month = 8, day = 24, hour = 0, minute = 0\<rparr>\<rparr>)
   \<noteq> snd (generateLedger 1000
      \<lparr>reader = [[''2'', ''USD'', ''12.50'', ''Food'', ''Lunch'', ''20210305'', ''Checking'', '''',
                  '''', '''', '''', ''Eve'', ''123'', ''1230'', '''']],
       curr_date = \<lparr>year = 2016, month = 8, day = 24, hour = 0, minute = 0\<rparr>\<rparr>)"
  by code_simp

text \<open>
  C9, amended. Take two inputs of the same length whose rows are equal one by one, except
  that a row of category \<open>SYSTEM\<close> or \<open>Transfer\<close> may differ from its counterpart in the
  payee field, the field 11. From the same initial date, and with the same depth of calls
  left, \<open>generateLedger\<close> writes the same text for both, and ends with an exception on one
  exactly when it does on the other. A row of any other category that is returned as a
  transaction has its payee field as the transaction's payee, and what the loop writes
  for the transaction begins with the title line that carries this field.
\<close>

theorem payee_ignored_for_system_and_transfer:
  assumes "list_all2 (\<lambda>a b. b = a \<or> (a ! 3 \<in> {''SYSTEM'', ''Transfer''} \<and> (\<exists>p. b = a[11 := p])))
             rows rows'"
  shows "snd (generateLedger depth \<lparr>reader = rows, curr_date = d\<rparr>)
           = snd (generateLedger depth \<lparr>reader = rows', curr_date = d\<rparr>)
       \<and> (fst (generateLedger depth \<lparr>reader = rows, curr_date = d\<rparr>) = None
          \<longleftrightarrow> fst (generateLedger depth \<lparr>reader = rows', curr_date = d\<rparr>) = None)
       \<and> (\<forall>cur row t c. next_row cur row = Inr (Return t c)
             \<and> row ! 3 \<notin> {''SYSTEM'', ''Transfer''} \<longrightarrow> payee t = row ! 11)
       \<and> (\<forall>cur row t c w. next_row cur row = Inr (Return t c)
             \<and> row ! 3 \<notin> {''SYSTEM'', ''Transfer''} \<longrightarrow>
             (\<exists>s. writer (snd (write_row w t))
                   = writer w @ strftime_Ymd (time t) @ '' * '' @ row ! 11 @ [CHR 0x0A] @ s))"
proof -
  have kept: "\<forall>cur row t c. next_row cur row = Inr (Return t c)
      \<and> row ! 3 \<notin> {''SYSTEM'', ''Transfer''} \<longrightarrow> payee t = row ! 11"
  proof (intro allI impI, elim conjE)
    fix cur row t c
    assume ret: "next_row cur row = Inr (Return t c)"
      and other: "row ! 3 \<notin> {''SYSTEM'', ''Transfer''}"
    from ret obtain r where r: "parse_row row = Inr r"
      by (rule next_row_parsed)
    from ret other parse_row_fields(2,5) [OF r] show "payee t = row ! 11"
      by (auto simp add: next_row_of_parsed [OF r] transaction.truncate_def split: if_splits)
  qed
  have title: "\<forall>cur row t c w. next_row cur row = Inr (Return t c)
      \<and> row ! 3 \<notin> {''SYSTEM'', ''Transfer''} \<longrightarrow>
      (\<exists>s. writer (snd (write_row w t))
            = writer w @ strftime_Ymd (time t) @ '' * '' @ row ! 11 @ [CHR 0x0A] @ s)"
  proof (intro allI impI, elim conjE)
    fix cur row t c w
    assume ret: "next_row cur row = Inr (Return t c)"
      and other: "row ! 3 \<notin> {''SYSTEM'', ''Transfer''}"
    from kept ret other have p: "payee t = row ! 11"
      by blast
    from changed_account_of_returned [OF ret] obtain legs where "changed_account_of t = Inr legs"
      by auto
    with write_title [of w "time t" "payee t" legs "[]" "tags_of t"] p
    show "\<exists>s. writer (snd (write_row w t))
            = writer w @ strftime_Ymd (time t) @ '' * '' @ row ! 11 @ [CHR 0x0A] @ s"
      by (simp add: write_row_def)
  qed
  from loop_payee [of "\<lparr>reader = rows, curr_date = d\<rparr>" "\<lparr>reader = rows', curr_date = d\<rparr>"
      depth "\<lparr>writer = [], indent = 4\<rparr>"] assms
  have "snd (generateLedger depth \<lparr>reader = rows, curr_date = d\<rparr>)
           = snd (generateLedger depth \<lparr>reader = rows', curr_date = d\<rparr>)
       \<and> (fst (generateLedger depth \<lparr>reader = rows, curr_date = d\<rparr>) = None
          \<longleftrightarrow> fst (generateLedger depth \<lparr>reader = rows', curr_date = d\<rparr>) = None)"
    by (auto simp add: generateLedger_def split: prod.splits)
  with kept title show ?thesis
    by blast
qed

theorem payee_ignored_for_system_and_transfer_witness:
  "snd (generateLedger 1000
      \<lparr>reader = [[''5'', ''USD'', ''7'', ''Transfer'', ''Move'', ''20210307'', ''Wallet'', ''Bank'',
                  '''', '''', '''', ''Ann'', ''125'', ''15'', ''1'']],
       curr_date = \<lparr>year = 2016, month = 8, day = 24, hour = 0, minute = 0\<rparr>\<rparr>)
   = snd (generateLedger 1000
      \<lparr>reader = [[''5'', ''USD'', ''7'', ''Transfer'', ''Move'', ''20210307'', ''Wallet'', ''Bank'',
                  '''', '''', '''', ''Eve'', ''125'', ''15'', ''1'']],
       curr_date = \<lparr>year = 2016, month = 8, day = 24, hour = 0, minute = 0\<rparr>\<rparr>)"
proof -
  let ?ann = "[''5'', ''USD'', ''7'', ''Transfer'', ''Move'', ''20210307'', ''Wallet'', ''Bank'',
       '''', '''', '''', ''Ann'', ''125'', ''15'', ''1'']"
  let ?eve = "[''5'', ''USD'', ''7'', ''Transfer'', ''Move'', ''20210307'', ''Wallet'', ''Bank'',
       '''', '''', '''', ''Eve'', ''125'', ''15'', ''1'']"
  have u: "?eve = ?ann[11 := ''Eve'']"
    by code_simp
  have c: "?ann ! 3 \<in> {''SYSTEM'', ''Transfer''}"
    by simp
  from u c
  have h: "list_all2 (\<lambda>a b. b = a \<or> (a ! 3 \<in> {''SYSTEM'', ''Transfer''} \<and> (\<exists>p. b = a[11 := p])))
             [?ann] [?eve]"
    by blast
  from payee_ignored_for_system_and_transfer [OF h, of 1000] show ?thesis
    by blast
qed

subsection \<open>Every call of \<open>__next__\<close> returns\<close>

lemma next_consumes:
  "length (reader (snd (AndroMoneyReader_next depth self))) \<le> length (reader self)
   \<and> (reader self \<noteq> [] \<and> 0 < depth \<longrightarrow>
        length (reader (snd (AndroMoneyReader_next depth self))) < length (reader self))"
proof (induction depth arbitrary: self)
  case 0
  show ?case
    by (simp add: next_zero)
next
  case (Suc depth)
  show ?case
  proof (cases "reader self")
    case Nil
    then show ?thesis
      by (simp add: AndroMoneyReader_next.simps)
  next
    case (Cons row rest)
    show ?thesis
    proof (cases "next_row (curr_date self) row")
      case (Inl e)
      with Cons show ?thesis
        by (simp add: AndroMoneyReader_next.simps)
    next
      case (Inr b)
      show ?thesis
      proof (cases b)
        case Again
        from Suc.IH [of "self\<lparr>reader := rest\<rparr>"] Cons Inr Again show ?thesis
          by (simp add: AndroMoneyReader_next.simps)
      next
        case (Return t cur)
        with Cons Inr show ?thesis
          by (simp add: AndroMoneyReader_next.simps)
      qed
    qed
  qed
qed

lemma next_no_recursion:
  "length (reader self) < depth \<Longrightarrow> fst (AndroMoneyReader_next depth self) \<noteq> Inl RecursionError"
proof (induction depth arbitrary: self)
  case 0
  then show ?case
    by simp
next
  case (Suc depth)
  note unfold = AndroMoneyReader_next.simps(2) [of depth self]
  show ?case
  proof (cases "reader self")
    case Nil
    then show ?thesis
      by (simp add: unfold)
  next
    case (Cons row rest)
    with Suc.prems have short: "length (reader (self\<lparr>reader := rest\<rparr>)) < depth"
      by simp
    show ?thesis
    proof (cases "next_row (curr_date self) row")
      case (Inl e)
      with Cons next_row_not_recursion [of "curr_date self" row] show ?thesis
        by (auto simp add: unfold)
    next
      case (Inr b)
      show ?thesis
      proof (cases b)
        case Again
        from Suc.IH [OF short] Cons Inr Again show ?thesis
          by (simp add: unfold)
      next
        case (Return t cur)
        with Cons Inr show ?thesis
          by (simp add: unfold)
      qed
    qed
  qed
qed

lemma next_same:
  "length (reader self) < depth \<Longrightarrow> length (reader self) < m \<Longrightarrow>
     AndroMoneyReader_next m self = AndroMoneyReader_next depth self"
proof (induction depth arbitrary: self m)
  case 0
  then show ?case
    by simp
next
  case (Suc depth)
  from Suc.prems(2) obtain m' where m: "m = Suc m'"
    by (cases m) auto
  note unfold = AndroMoneyReader_next.simps(2) [of depth self]
    AndroMoneyReader_next.simps(2) [of m' self]
  show ?case
  proof (cases "reader self")
    case Nil
    then show ?thesis
      by (simp add: m unfold)
  next
    case (Cons row rest)
    with Suc.prems m have short: "length (reader (self\<lparr>reader := rest\<rparr>)) < depth"
      and short': "length (reader (self\<lparr>reader := rest\<rparr>)) < m'"
      by simp_all
    show ?thesis
    proof (cases "next_row (curr_date self) row")
      case (Inl e)
      with Cons show ?thesis
        by (simp add: m unfold)
    next
      case (Inr b)
      show ?thesis
      proof (cases b)
        case Again
        from Suc.IH [OF short short'] Cons Inr Again show ?thesis
          by (simp add: m unfold)
      next
        case (Return t cur)
        with Cons Inr show ?thesis
          by (simp add: m unfold)
      qed
    qed
  qed
qed

text \<open>
  C10. On a reader with finitely many rows left, every call of \<open>__next__\<close> returns: the
  call that skips a row calls itself on the rows after it, so a call never needs more
  nested calls than one more than the number of these rows. With that many allowed, the
  bound on the depth is not reached, no \<open>RecursionError\<close> is raised, and the result is the
  same whatever the bound. At the end of the rows the call raises \<open>StopIteration\<close>;
  otherwise it raises an exception or returns a transaction, and has taken at least one
  row from the reader. A call that the depth does not allow raises \<open>RecursionError\<close>.
\<close>

theorem next_returns:
  "(length (reader self) < depth \<longrightarrow>
        fst (AndroMoneyReader_next depth self) \<noteq> Inl RecursionError
      \<and> (\<forall>m. length (reader self) < m \<longrightarrow>
            AndroMoneyReader_next m self = AndroMoneyReader_next depth self))
   \<and> (reader self = [] \<longrightarrow> AndroMoneyReader_next (Suc depth) self = (Inl StopIteration, self))
   \<and> (reader self \<noteq> [] \<longrightarrow>
        length (reader (snd (AndroMoneyReader_next (Suc depth) self))) < length (reader self))
   \<and> (\<forall>row rest. reader self = row # rest \<and> next_row (curr_date self) row = Inr Again \<longrightarrow>
        AndroMoneyReader_next (Suc depth) self
          = AndroMoneyReader_next depth (self\<lparr>reader := rest\<rparr>))
   \<and> AndroMoneyReader_next 0 self = (Inl RecursionError, self)"
proof -
  have enough: "length (reader self) < depth \<longrightarrow>
        fst (AndroMoneyReader_next depth self) \<noteq> Inl RecursionError
      \<and> (\<forall>m. length (reader self) < m \<longrightarrow>
            AndroMoneyReader_next m self = AndroMoneyReader_next depth self)"
  proof (intro impI conjI allI)
    assume d: "length (reader self) < depth"
    from next_no_recursion [OF d]
    show "fst (AndroMoneyReader_next depth self) \<noteq> Inl RecursionError" .
    fix m
    assume m: "length (reader self) < m"
    from next_same [OF d m]
    show "AndroMoneyReader_next m self = AndroMoneyReader_next depth self" .
  qed
  from next_consumes [of "Suc depth" self]
  have consumed: "reader self \<noteq> [] \<longrightarrow>
      length (reader (snd (AndroMoneyReader_next (Suc depth) self))) < length (reader self)"
    by simp
  have rest: "(reader self = [] \<longrightarrow> AndroMoneyReader_next (Suc depth) self = (Inl StopIteration, self))
      \<and> (\<forall>row rest. reader self = row # rest \<and> next_row (curr_date self) row = Inr Again \<longrightarrow>
            AndroMoneyReader_next (Suc depth) self
              = AndroMoneyReader_next depth (self\<lparr>reader := rest\<rparr>))"
    by (auto simp add: AndroMoneyReader_next.simps)
  from enough consumed rest next_zero [of self] show ?thesis
    by blast
qed

theorem next_returns_witness:
  "fst (AndroMoneyReader_next 1000
      \<lparr>reader = [[''3'', ''USD'', ''0.0000001'', ''SYSTEM'', ''INIT_AMOUNT'', ''20200101'', ''X'',
                  ''Cash'', '''', '''', '''', ''P'', ''u3'', ''0'', ''''],
                 [''3'', ''USD'', ''0'', ''SYSTEM'', ''INIT_AMOUNT'', ''20200101'', ''X'',
                  ''Cash'', '''', '''', '''', ''P'', ''u3'', ''0'', '''']],
       curr_date = \<lparr>year = 2016, month = 8, day = 24, hour = 0, minute = 0\<rparr>\<rparr>)
     \<noteq> Inl RecursionError
   \<and> AndroMoneyReader_next 3
      \<lparr>reader = [[''3'', ''USD'', ''0.0000001'', ''SYSTEM'', ''INIT_AMOUNT'', ''20200101'', ''X'',
                  ''Cash'', '''', '''', '''', ''P'', ''u3'', ''0'', ''''],
                 [''3'', ''USD'', ''0'', ''SYSTEM'', ''INIT_AMOUNT'', ''20200101'', ''X'',
                  ''Cash'', '''', '''', '''', ''P'', ''u3'', ''0'', '''']],
       curr_date = \<lparr>year = 2016, month = 8, day = 24, hour = 0, minute = 0\<rparr>\<rparr>
     = AndroMoneyReader_next 1000
      \<lparr>reader = [[''3'', ''USD'', ''0.0000001'', ''SYSTEM'', ''INIT_AMOUNT'', ''20200101'', ''X'',
                  ''Cash'', '''', '''', '''', ''P'', ''u3'', ''0'', ''''],
                 [''3'', ''USD'', ''0'', ''SYSTEM'', ''INIT_AMOUNT'', ''20200101'', ''X'',
                  ''Cash'', '''', '''', '''', ''P'', ''u3'', ''0'', '''']],
       curr_date = \<lparr>year = 2016, month = 8, day = 24, hour = 0, minute = 0\<rparr>\<rparr>"
proof -
  let ?rd = "\<lparr>reader = [[''3'', ''USD'', ''0.0000001'', ''SYSTEM'', ''INIT_AMOUNT'', ''20200101'', ''X'',
                  ''Cash'', '''', '''', '''', ''P'', ''u3'', ''0'', ''''],
                 [''3'', ''USD'', ''0'', ''SYSTEM'', ''INIT_AMOUNT'', ''20200101'', ''X'',
                  ''Cash'', '''', '''', '''', ''P'', ''u3'', ''0'', '''']],
       curr_date = \<lparr>year = 2016, month = 8, day = 24, hour = 0, minute = 0\<rparr>\<rparr>"
  have len: "length (reader ?rd) < 1000" and len3: "length (reader ?rd) < 3"
    by simp_all
  from next_returns [of ?rd 1000] len len3 show ?thesis
    by blast
qed

end
